theory Spec2Isabelle
  imports Main "HOL-Library.Char_ord" "HOL-Library.List_Lexorder" "HOL-Library.Sublist"
begin

section \<open>Strings and the library functions the package calls\<close>

text \<open>
  A Go string is a sequence of bytes; it is modelled as a \<^typ>\<open>string\<close> (a list of
  8-bit characters).  Go compares strings byte by byte, which is the lexicographic order
  on lists over the order of characters by their code.

  \<^verbatim>\<open>strings.Join\<close> concatenates the elements with the separator between them.
\<close>

fun Join :: "string list \<Rightarrow> string \<Rightarrow> string" where
  "Join [] sep = []"
| "Join [x] sep = x"
| "Join (x # y # ys) sep = x @ sep @ Join (y # ys) sep"

text \<open>
  \<open>ParseService\<close> calls \<^verbatim>\<open>strings.TrimSpace\<close>, \<^verbatim>\<open>strings.ToLower\<close> and the \<^verbatim>\<open>%q\<close>
  verb of \<^verbatim>\<open>fmt\<close>.  The three belong to the Go standard library, not to the package,
  and outside ASCII they work on Unicode code points with the tables of the library.
  They are parameters of the model: a \<open>strlib\<close> holds the three functions, and
  \<open>ParseService\<close> takes it as its first argument.
\<close>

record strlib =
  TrimSpace :: "string \<Rightarrow> string"
  ToLower :: "string \<Rightarrow> string"
  Quote :: "string \<Rightarrow> string"

text \<open>
  What the three functions do on an ASCII string (every byte below 0x80) is written out
  below.  \<^verbatim>\<open>strings.TrimSpace\<close> drops the six ASCII white-space bytes (tab, line feed,
  vertical tab, form feed, carriage return, space) at both ends; \<^verbatim>\<open>strings.ToLower\<close>
  adds 32 to the bytes \<open>A\<close> to \<open>Z\<close>.
\<close>

definition isASCII :: "string \<Rightarrow> bool" where
  "isASCII s = list_all (\<lambda>c. of_char c < (128::nat)) s"

definition asciiSpace :: "char \<Rightarrow> bool" where
  "asciiSpace c = (c = CHR 0x09 \<or> c = CHR 0x0A \<or> c = CHR 0x0B \<or> c = CHR 0x0C
                   \<or> c = CHR 0x0D \<or> c = CHR 0x20)"

definition asciiTrimSpace :: "string \<Rightarrow> string" where
  "asciiTrimSpace s = rev (dropWhile asciiSpace (rev (dropWhile asciiSpace s)))"

definition toLowerByte :: "char \<Rightarrow> char" where
  "toLowerByte c = (if CHR ''A'' \<le> c \<and> c \<le> CHR ''Z''
                    then char_of (of_char c + (32::nat)) else c)"

definition asciiToLower :: "string \<Rightarrow> string" where
  "asciiToLower s = map toLowerByte s"

text \<open>
  The \<^verbatim>\<open>%q\<close> verb prints \<^verbatim>\<open>strconv.Quote(s)\<close>.  On an ASCII string that is the string
  between double quotes, with a double quote and a backslash behind a backslash,
  printable characters as they are, the seven control characters that have a letter
  escape by that escape, and any other byte as \<^verbatim>\<open>\x\<close> and two lower-case hexadecimal
  digits.
\<close>

definition hexDigit :: "nat \<Rightarrow> char" where
  "hexDigit n = (if n < 10 then char_of (48 + n) else char_of (87 + n))"

definition quoteByte :: "char \<Rightarrow> string" where
  "quoteByte c =
     (if c = CHR 0x22 \<or> c = CHR 0x5C then [CHR 0x5C, c]
      else if 32 \<le> (of_char c :: nat) \<and> (of_char c :: nat) < 127 then [c]
      else if c = CHR 0x07 then [CHR 0x5C, CHR ''a'']
      else if c = CHR 0x08 then [CHR 0x5C, CHR ''b'']
      else if c = CHR 0x0C then [CHR 0x5C, CHR ''f'']
      else if c = CHR 0x0A then [CHR 0x5C, CHR ''n'']
      else if c = CHR 0x0D then [CHR 0x5C, CHR ''r'']
      else if c = CHR 0x09 then [CHR 0x5C, CHR ''t'']
      else if c = CHR 0x0B then [CHR 0x5C, CHR ''v'']
      else [CHR 0x5C, CHR ''x'', hexDigit (of_char c div 16), hexDigit (of_char c mod 16)])"

definition asciiQuote :: "string \<Rightarrow> string" where
  "asciiQuote s = CHR 0x22 # concat (map quoteByte s) @ [CHR 0x22]"

text \<open>
  Two facts of the library are used, each only where a theorem names it.
  \<open>asciiExact L\<close>: on ASCII strings the functions of \<open>L\<close> are the three above.
  \<open>canonicalFixed L\<close>: a string that has been trimmed and lower-cased is not changed
  by trimming and lower-casing it again (trimming takes white space off the two ends,
  lower-casing replaces upper-case letters by lower-case letters, which are not white
  space).  Nothing else is assumed of \<open>L\<close>: what it does to white space, letters and
  unprintable characters outside ASCII is left open.
\<close>

definition asciiExact :: "strlib \<Rightarrow> bool" where
  "asciiExact L =
     (\<forall>s. isASCII s \<longrightarrow>
        TrimSpace L s = asciiTrimSpace s \<and> ToLower L s = asciiToLower s
        \<and> Quote L s = asciiQuote s)"

definition canonicalFixed :: "strlib \<Rightarrow> bool" where
  "canonicalFixed L =
     (\<forall>s. ToLower L (TrimSpace L (ToLower L (TrimSpace L s))) = ToLower L (TrimSpace L s))"

text \<open>The three ASCII functions as a library: it has both properties, and on an ASCII
  input \<open>ParseService\<close> with it computes what the Go program computes.\<close>

definition asciiLib :: strlib where
  "asciiLib = \<lparr>TrimSpace = asciiTrimSpace, ToLower = asciiToLower, Quote = asciiQuote\<rparr>"

section \<open>Errors\<close>

text \<open>
  \<^verbatim>\<open>errors.New(msg)\<close> is an error that holds its message; \<^verbatim>\<open>fmt.Errorf\<close> with a
  \<^verbatim>\<open>%w\<close> verb is an error that holds the formatted message and the error it wraps.
  \<open>Error\<close> is the method of the same name, \<open>Unwrap\<close> is \<^verbatim>\<open>errors.Unwrap\<close>.
\<close>

datatype error = ErrorString string | WrapError string error

fun Error :: "error \<Rightarrow> string" where
  "Error (ErrorString msg) = msg"
| "Error (WrapError msg err) = msg"

fun Unwrap :: "error \<Rightarrow> error option" where
  "Unwrap (ErrorString msg) = None"
| "Unwrap (WrapError msg err) = Some err"

definition errUnknownService :: error where
  "errUnknownService = ErrorString ''unknown service''"

section \<open>The registry\<close>

type_synonym Service = string

definition ServiceGmail :: Service where "ServiceGmail = ''gmail''"
definition ServiceCalendar :: Service where "ServiceCalendar = ''calendar''"
definition ServiceDrive :: Service where "ServiceDrive = ''drive''"
definition ServiceDocs :: Service where "ServiceDocs = ''docs''"
definition ServiceContacts :: Service where "ServiceContacts = ''contacts''"
definition ServiceTasks :: Service where "ServiceTasks = ''tasks''"
definition ServicePeople :: Service where "ServicePeople = ''people''"
definition ServiceSheets :: Service where "ServiceSheets = ''sheets''"
definition ServiceGroups :: Service where "ServiceGroups = ''groups''"
definition ServiceKeep :: Service where "ServiceKeep = ''keep''"

definition scopeOpenID :: string where "scopeOpenID = ''openid''"
definition scopeEmail :: string where "scopeEmail = ''email''"
definition scopeUserinfoEmail :: string where
  "scopeUserinfoEmail = ''https://www.googleapis.com/auth/userinfo.email''"

text \<open>The struct \<^verbatim>\<open>serviceInfo\<close>; its field \<^verbatim>\<open>note\<close> is \<open>note'\<close> here, the plain
  name being a keyword.\<close>

record serviceInfo =
  scopes :: "string list"
  user :: bool
  apis :: "string list"
  note' :: string

definition serviceOrder :: "Service list" where
  "serviceOrder =
     [ServiceGmail, ServiceCalendar, ServiceDrive, ServiceDocs, ServiceContacts,
      ServiceTasks, ServiceSheets, ServicePeople, ServiceGroups, ServiceKeep]"

text \<open>The map literal, entry by entry in the order of the source.  The keys of a Go map
  literal are distinct (the compiler refuses a repeated constant key), so the lookup in
  the list of entries is the lookup in the map.\<close>

definition serviceEntries :: "(Service \<times> serviceInfo) list" where
  "serviceEntries =
     [(ServiceGmail,
        \<lparr>scopes = [''https://mail.google.com/'',
                   ''https://www.googleapis.com/auth/gmail.settings.basic''],
         user = True, apis = [''Gmail API''], note' = []\<rparr>),
      (ServiceCalendar,
        \<lparr>scopes = [''https://www.googleapis.com/auth/calendar''],
         user = True, apis = [''Calendar API''], note' = []\<rparr>),
      (ServiceDrive,
        \<lparr>scopes = [''https://www.googleapis.com/auth/drive''],
         user = True, apis = [''Drive API''], note' = []\<rparr>),
      (ServiceDocs,
        \<lparr>scopes = [''https://www.googleapis.com/auth/drive'',
                   ''https://www.googleapis.com/auth/documents''],
         user = True, apis = [''Docs API'', ''Drive API''],
         note' = ''Export/copy/create via Drive''\<rparr>),
      (ServiceContacts,
        \<lparr>scopes = [''https://www.googleapis.com/auth/contacts'',
                   ''https://www.googleapis.com/auth/contacts.other.readonly'',
                   ''https://www.googleapis.com/auth/directory.readonly''],
         user = True, apis = [''People API''],
         note' = ''Contacts + other contacts + directory''\<rparr>),
      (ServiceTasks,
        \<lparr>scopes = [''https://www.googleapis.com/auth/tasks''],
         user = True, apis = [''Tasks API''], note' = []\<rparr>),
      (ServicePeople,
        \<lparr>scopes = [''profile''],
         user = True, apis = [''People API''], note' = ''OIDC profile scope''\<rparr>),
      (ServiceSheets,
        \<lparr>scopes = [''https://www.googleapis.com/auth/spreadsheets''],
         user = True, apis = [''Sheets API'', ''Drive API''],
         note' = ''Export via Drive''\<rparr>),
      (ServiceGroups,
        \<lparr>scopes = [''https://www.googleapis.com/auth/cloud-identity.groups.readonly''],
         user = False, apis = [''Cloud Identity API''], note' = ''Workspace only''\<rparr>),
      (ServiceKeep,
        \<lparr>scopes = [''https://www.googleapis.com/auth/keep''],
         user = False, apis = [''Keep API''],
         note' = ''Workspace only; service account''\<rparr>)]"

definition serviceInfoByService :: "Service \<rightharpoonup> serviceInfo" where
  "serviceInfoByService = map_of serviceEntries"

section \<open>Enumeration and parsing\<close>

definition AllServices :: "Service list" where
  "AllServices = serviceOrder"

definition serviceNames :: "Service list \<Rightarrow> string \<Rightarrow> string" where
  "serviceNames services sep = Join services sep"

text \<open>\<open>L\<close> is the library: \<open>TrimSpace L\<close>, \<open>ToLower L\<close> and \<open>Quote L\<close> stand where
  the source calls \<^verbatim>\<open>strings.TrimSpace\<close>, \<^verbatim>\<open>strings.ToLower\<close> and formats with \<^verbatim>\<open>%q\<close>.
  \<^verbatim>\<open>fmt.Errorf("%w %q (expected %s)", errUnknownService, s, names)\<close>: the message
  of the wrapped error, a space, the quoted input, and the names in parentheses.\<close>

definition ParseService :: "strlib \<Rightarrow> string \<Rightarrow> error + Service" where
  "ParseService L s =
     (let parsed = ToLower L (TrimSpace L s) in
      case serviceInfoByService parsed of
        Some info \<Rightarrow> Inr parsed
      | None \<Rightarrow>
          Inl (WrapError
                 (Error errUnknownService @ '' '' @ Quote L s @ '' (expected ''
                    @ serviceNames AllServices ''|'' @ '')'')
                 errUnknownService))"

text \<open>The loop of \<^verbatim>\<open>filteredServices\<close>, one step per element of the order; the
  function argument may be \<^verbatim>\<open>nil\<close>.\<close>

fun filterStep :: "(serviceInfo \<Rightarrow> bool) option \<Rightarrow> Service list \<Rightarrow> Service \<Rightarrow> Service list" where
  "filterStep incl out svc =
     (case serviceInfoByService svc of
        None \<Rightarrow> out
      | Some info \<Rightarrow>
          (case incl of
             None \<Rightarrow> out @ [svc]
           | Some f \<Rightarrow> if f info then out @ [svc] else out))"

definition filteredServices :: "(serviceInfo \<Rightarrow> bool) option \<Rightarrow> Service list" where
  "filteredServices incl = foldl (filterStep incl) [] serviceOrder"

definition UserServices :: "Service list" where
  "UserServices = filteredServices (Some user)"

definition UserServiceCSV :: string where
  "UserServiceCSV = serviceNames UserServices '',''"

section \<open>Scope resolution\<close>

definition Scopes :: "Service \<Rightarrow> error + string list" where
  "Scopes service =
     (case serviceInfoByService service of
        None \<Rightarrow> Inl errUnknownService
      | Some info \<Rightarrow> Inr (scopes info))"

text \<open>
  A \<^verbatim>\<open>map[string]struct{}\<close> used as a set is modelled by the list of its keys, each
  once.  Go ranges over a map in an order it does not fix; the two functions below sort
  what they collected, and the sorted list of distinct keys does not depend on the order
  in which they were collected (lemma \<open>sort_keys_any_order\<close>).
\<close>

fun addKeys :: "string list \<Rightarrow> string list \<Rightarrow> string list" where
  "addKeys keys [] = keys"
| "addKeys keys (s # ss) = addKeys (List.insert s keys) ss"

text \<open>The outer loop of \<^verbatim>\<open>ScopesForServices\<close>: it returns at the first service that
  \<open>Scopes\<close> refuses, with that error and no list.\<close>

fun collectScopes :: "string list \<Rightarrow> Service list \<Rightarrow> error + string list" where
  "collectScopes keys [] = Inr keys"
| "collectScopes keys (svc # rest) =
     (case Scopes svc of
        Inl err \<Rightarrow> Inl err
      | Inr scs \<Rightarrow> collectScopes (addKeys keys scs) rest)"

definition ScopesForServices :: "Service list \<Rightarrow> error + string list" where
  "ScopesForServices services =
     (case collectScopes [] services of
        Inl err \<Rightarrow> Inl err
      | Inr keys \<Rightarrow> Inr (sort keys))"

text \<open>The two loops of \<^verbatim>\<open>mergeScopes\<close> skip the empty string.\<close>

fun addNonEmpty :: "string list \<Rightarrow> string list \<Rightarrow> string list" where
  "addNonEmpty keys [] = keys"
| "addNonEmpty keys (s # ss) =
     (if s = [] then addNonEmpty keys ss else addNonEmpty (List.insert s keys) ss)"

definition mergeScopes :: "string list \<Rightarrow> string list \<Rightarrow> string list" where
  "mergeScopes scs extras = sort (addNonEmpty (addNonEmpty [] scs) extras)"

definition ScopesForManage :: "Service list \<Rightarrow> error + string list" where
  "ScopesForManage services =
     (case ScopesForServices services of
        Inl err \<Rightarrow> Inl err
      | Inr scs \<Rightarrow> Inr (mergeScopes scs [scopeOpenID, scopeEmail, scopeUserinfoEmail]))"

section \<open>Metadata and its rendering\<close>

text \<open>The exported struct \<^verbatim>\<open>ServiceInfo\<close>; its field \<^verbatim>\<open>Scopes\<close> is \<open>Scopes'\<close> here,
  apart from the function of that name.\<close>

record ServiceInfo =
  Service :: Service
  User :: bool
  Scopes' :: "string list"
  APIs :: "string list"
  Note :: string

definition ServicesInfo :: "ServiceInfo list" where
  "ServicesInfo =
     foldl (\<lambda>out svc.
              case serviceInfoByService svc of
                None \<Rightarrow> out
              | Some info \<Rightarrow>
                  out @ [\<lparr>Service = svc, User = user info, Scopes' = scopes info,
                          APIs = apis info, Note = note' info\<rparr>])
           [] serviceOrder"

definition markdownScopes :: "string list \<Rightarrow> string" where
  "markdownScopes scs =
     (if length scs = 0 then []
      else Join (map (\<lambda>scope. [CHR 0x60] @ scope @ [CHR 0x60]) scs) ''<br>'')"

text \<open>One pass of the loop of \<^verbatim>\<open>ServicesMarkdown\<close>: the nine writes to the
  builder \<open>b\<close>.\<close>

definition writeRow :: "string \<Rightarrow> ServiceInfo \<Rightarrow> string" where
  "writeRow b info =
     (let userLabel = (if User info then ''yes'' else ''no'') in
      b @ ''| '' @ Service info @ '' | '' @ userLabel @ '' | '' @ Join (APIs info) '', ''
        @ '' | '' @ markdownScopes (Scopes' info) @ '' | '' @ Note info
        @ '' |'' @ [CHR 0x0A])"

definition ServicesMarkdown :: "ServiceInfo list \<Rightarrow> string" where
  "ServicesMarkdown infos =
     (if length infos = 0 then []
      else foldl writeRow
             (''| Service | User | APIs | Scopes | Notes |'' @ [CHR 0x0A]
                @ ''| --- | --- | --- | --- | --- |'' @ [CHR 0x0A])
             infos)"

section \<open>Auxiliary facts\<close>

lemmas service_defs =
  ServiceGmail_def ServiceCalendar_def ServiceDrive_def ServiceDocs_def
  ServiceContacts_def ServiceTasks_def ServicePeople_def ServiceSheets_def
  ServiceGroups_def ServiceKeep_def

lemma dom_serviceInfoByService:
  "dom serviceInfoByService =
     {''gmail'', ''calendar'', ''drive'', ''docs'', ''contacts'', ''tasks'', ''people'',
      ''sheets'', ''groups'', ''keep''}"
  unfolding serviceInfoByService_def dom_map_of_conv_image_fst serviceEntries_def service_defs
  by simp

lemma set_addKeys: "set (addKeys keys ss) = set keys \<union> set ss"
  by (induction ss arbitrary: keys) auto

lemma distinct_addKeys: "distinct keys \<Longrightarrow> distinct (addKeys keys ss)"
  by (induction ss arbitrary: keys) auto

lemma sort_keys_any_order:
  fixes keys :: "string list"
  assumes "distinct keys" and "distinct keys'" and "set keys' = set keys"
  shows "sort keys' = sort keys"
proof (rule sorted_distinct_set_unique)
  show "sorted (sort keys')" and "sorted (sort keys)" by simp_all
  show "distinct (sort keys')" and "distinct (sort keys)" using assms by simp_all
  show "set (sort keys') = set (sort keys)" using assms by simp
qed

lemma Scopes_registered:
  "svc \<in> dom serviceInfoByService \<Longrightarrow> \<exists>scs. Scopes svc = Inr scs"
  by (auto simp: Scopes_def)

lemma Scopes_unregistered:
  "svc \<notin> dom serviceInfoByService \<Longrightarrow> Scopes svc = Inl errUnknownService"
  by (auto simp: Scopes_def dom_def)

lemma collectScopes_registered:
  assumes "set services \<subseteq> dom serviceInfoByService"
  shows "\<exists>out. collectScopes keys services = Inr out
           \<and> set out = set keys \<union> {s. \<exists>svc\<in>set services. \<exists>scs. Scopes svc = Inr scs \<and> s \<in> set scs}
           \<and> (distinct keys \<longrightarrow> distinct out)"
  using assms
proof (induction services arbitrary: keys)
  case Nil
  then show ?case by simp
next
  case (Cons svc rest)
  from Cons.prems obtain scs where scs: "Scopes svc = Inr scs"
    using Scopes_registered by auto
  from Cons.prems have "set rest \<subseteq> dom serviceInfoByService" by simp
  from Cons.IH [OF this, of "addKeys keys scs"] obtain out where
    out: "collectScopes (addKeys keys scs) rest = Inr out"
      "set out = set (addKeys keys scs) \<union> {s. \<exists>svc\<in>set rest. \<exists>scs. Scopes svc = Inr scs \<and> s \<in> set scs}"
      "distinct (addKeys keys scs) \<longrightarrow> distinct out"
    by blast
  have "collectScopes keys (svc # rest) = Inr out"
    using scs out(1) by simp
  moreover have "set out = set keys \<union> {s. \<exists>svc\<in>set (svc # rest). \<exists>scs. Scopes svc = Inr scs \<and> s \<in> set scs}"
    using out(2) scs by (auto simp: set_addKeys)
  moreover have "distinct keys \<longrightarrow> distinct out"
    using out(3) distinct_addKeys by blast
  ultimately show ?case by blast
qed

lemma collectScopes_first_unknown:
  assumes "set pre \<subseteq> dom serviceInfoByService" and "bad \<notin> dom serviceInfoByService"
  shows "collectScopes keys (pre @ bad # post) = Inl errUnknownService"
  using assms
proof (induction pre arbitrary: keys)
  case Nil
  then show ?case by (simp add: Scopes_unregistered)
next
  case (Cons svc pre)
  from Cons.prems have "svc \<in> dom serviceInfoByService" by simp
  then obtain scs where "Scopes svc = Inr scs"
    using Scopes_registered by blast
  moreover from Cons.prems have "set pre \<subseteq> dom serviceInfoByService" by simp
  ultimately show ?case
    using Cons.IH Cons.prems(2) by simp
qed

lemma first_unregistered:
  assumes "\<not> set services \<subseteq> dom serviceInfoByService"
  shows "\<exists>pre bad post. services = pre @ bad # post
           \<and> set pre \<subseteq> dom serviceInfoByService \<and> bad \<notin> dom serviceInfoByService"
proof -
  from assms have "\<exists>x\<in>set services. x \<notin> dom serviceInfoByService" by blast
  from split_list_first_prop [OF this] show ?thesis by (metis subsetI)
qed

lemma registry_scopes:
  assumes "serviceInfoByService svc = Some info"
  shows "set (scopes info) \<subseteq>
     {''https://mail.google.com/'',
      ''https://www.googleapis.com/auth/gmail.settings.basic'',
      ''https://www.googleapis.com/auth/calendar'',
      ''https://www.googleapis.com/auth/drive'',
      ''https://www.googleapis.com/auth/documents'',
      ''https://www.googleapis.com/auth/contacts'',
      ''https://www.googleapis.com/auth/contacts.other.readonly'',
      ''https://www.googleapis.com/auth/directory.readonly'',
      ''https://www.googleapis.com/auth/tasks'',
      ''profile'',
      ''https://www.googleapis.com/auth/spreadsheets'',
      ''https://www.googleapis.com/auth/cloud-identity.groups.readonly'',
      ''https://www.googleapis.com/auth/keep''}"
  using assms
  unfolding serviceInfoByService_def serviceEntries_def service_defs
  by (auto split: if_splits)

lemma set_addNonEmpty: "set (addNonEmpty keys ss) = set keys \<union> (set ss - {[]})"
  by (induction ss arbitrary: keys) auto

lemma distinct_addNonEmpty: "distinct keys \<Longrightarrow> distinct (addNonEmpty keys ss)"
  by (induction ss arbitrary: keys) auto

lemma set_mergeScopes: "set (mergeScopes scs extras) = (set scs \<union> set extras) - {[]}"
  by (auto simp: mergeScopes_def set_addNonEmpty)

lemma strict_sorted_mergeScopes: "sorted_wrt (<) (mergeScopes scs extras)"
  by (simp add: mergeScopes_def strict_sorted_iff distinct_addNonEmpty)

lemma ScopesForServices_registered_scopes:
  assumes "ScopesForServices services = Inr scs"
  shows "set scs \<subseteq>
     {''https://mail.google.com/'',
      ''https://www.googleapis.com/auth/gmail.settings.basic'',
      ''https://www.googleapis.com/auth/calendar'',
      ''https://www.googleapis.com/auth/drive'',
      ''https://www.googleapis.com/auth/documents'',
      ''https://www.googleapis.com/auth/contacts'',
      ''https://www.googleapis.com/auth/contacts.other.readonly'',
      ''https://www.googleapis.com/auth/directory.readonly'',
      ''https://www.googleapis.com/auth/tasks'',
      ''profile'',
      ''https://www.googleapis.com/auth/spreadsheets'',
      ''https://www.googleapis.com/auth/cloud-identity.groups.readonly'',
      ''https://www.googleapis.com/auth/keep''}"
proof -
  have step: "set out \<subseteq> A"
    if "collectScopes keys svcs = Inr out" and "set keys \<subseteq> A"
      and "\<And>svc info. serviceInfoByService svc = Some info \<Longrightarrow> set (scopes info) \<subseteq> A"
    for keys svcs out and A :: "string set"
    using that
  proof (induction svcs arbitrary: keys)
    case Nil
    then show ?case by simp
  next
    case (Cons svc rest)
    show ?case
    proof (cases "serviceInfoByService svc")
      case None
      with Cons.prems(1) show ?thesis by (simp add: Scopes_def)
    next
      case (Some info)
      then have run: "collectScopes (addKeys keys (scopes info)) rest = Inr out"
        using Cons.prems(1) by (simp add: Scopes_def)
      have "set (addKeys keys (scopes info)) \<subseteq> A"
        using Cons.prems(2) Cons.prems(3) [OF Some] by (simp add: set_addKeys)
      from Cons.IH [OF run this Cons.prems(3)] show ?thesis by simp
    qed
  qed
  from assms obtain keys where keys: "collectScopes [] services = Inr keys" and scs: "scs = sort keys"
    by (auto simp: ScopesForServices_def split: sum.splits)
  from step [OF keys _ registry_scopes] show ?thesis
    using scs by simp
qed

lemma identity_not_registry:
  assumes "set scs \<subseteq>
     {''https://mail.google.com/'',
      ''https://www.googleapis.com/auth/gmail.settings.basic'',
      ''https://www.googleapis.com/auth/calendar'',
      ''https://www.googleapis.com/auth/drive'',
      ''https://www.googleapis.com/auth/documents'',
      ''https://www.googleapis.com/auth/contacts'',
      ''https://www.googleapis.com/auth/contacts.other.readonly'',
      ''https://www.googleapis.com/auth/directory.readonly'',
      ''https://www.googleapis.com/auth/tasks'',
      ''profile'',
      ''https://www.googleapis.com/auth/spreadsheets'',
      ''https://www.googleapis.com/auth/cloud-identity.groups.readonly'',
      ''https://www.googleapis.com/auth/keep''}"
  shows "[] \<notin> set scs" and "''openid'' \<notin> set scs" and "''email'' \<notin> set scs"
    and "''https://www.googleapis.com/auth/userinfo.email'' \<notin> set scs"
  using assms by auto

lemma toLowerByte_cases:
  "toLowerByte c = c \<or>
     (65 \<le> (of_char c :: nat) \<and> (of_char c :: nat) \<le> 90
      \<and> (of_char (toLowerByte c) :: nat) = of_char c + 32)"
  by (simp add: toLowerByte_def less_eq_char_def)

lemma asciiSpace_iff:
  "asciiSpace c \<longleftrightarrow> (of_char c :: nat) \<in> {9, 10, 11, 12, 13, 32}"
  unfolding asciiSpace_def of_char_eq_iff [where ?'a = nat, symmetric]
  by simp

lemma asciiSpace_toLowerByte: "asciiSpace (toLowerByte c) = asciiSpace c"
  using toLowerByte_cases [of c] by (auto simp: asciiSpace_iff)

lemma toLowerByte_idem: "toLowerByte (toLowerByte c) = toLowerByte c"
proof -
  have same: "toLowerByte d = d" if "\<not> ((of_char d :: nat) \<le> 90)" for d
    using that by (simp add: toLowerByte_def less_eq_char_def)
  from toLowerByte_cases [of c] show ?thesis
  proof
    assume "toLowerByte c = c"
    then show ?thesis by simp
  next
    assume "65 \<le> (of_char c :: nat) \<and> (of_char c :: nat) \<le> 90
      \<and> (of_char (toLowerByte c) :: nat) = of_char c + 32"
    then have "\<not> ((of_char (toLowerByte c) :: nat) \<le> 90)" by linarith
    then show ?thesis by (rule same)
  qed
qed

lemma asciiTrimSpace_ToLower: "asciiTrimSpace (asciiToLower s) = asciiToLower (asciiTrimSpace s)"
proof -
  have comp: "asciiSpace \<circ> toLowerByte = asciiSpace"
    by (rule ext) (simp add: asciiSpace_toLowerByte)
  have dw: "dropWhile asciiSpace (map toLowerByte xs) = map toLowerByte (dropWhile asciiSpace xs)"
    for xs
    by (simp add: dropWhile_map comp)
  show ?thesis
    by (simp add: asciiTrimSpace_def asciiToLower_def dw rev_map)
qed

lemma asciiToLower_idem: "asciiToLower (asciiToLower s) = asciiToLower s"
  by (simp add: asciiToLower_def toLowerByte_idem)

lemma dropWhile_rev_dropWhile:
  "dropWhile P (rev (dropWhile P (rev (dropWhile P s)))) = rev (dropWhile P (rev (dropWhile P s)))"
proof -
  define t where "t = dropWhile P s"
  define u where "u = rev (dropWhile P (rev t))"
  have t: "t = u @ rev (takeWhile P (rev t))"
  proof -
    have "t = rev (takeWhile P (rev t) @ dropWhile P (rev t))" by simp
    also have "\<dots> = rev (dropWhile P (rev t)) @ rev (takeWhile P (rev t))" by (rule rev_append)
    finally show ?thesis unfolding u_def .
  qed
  have "u = [] \<or> \<not> P (hd u)"
  proof (cases "u = []")
    case True
    then show ?thesis by simp
  next
    case False
    then have "hd u = hd t" using t by (metis hd_append2)
    moreover have "t \<noteq> []" using False t by auto
    then have "\<not> P (hd t)" unfolding t_def by (rule hd_dropWhile)
    ultimately show ?thesis by simp
  qed
  then have "dropWhile P u = u" by (simp add: dropWhile_eq_self_iff)
  then show ?thesis by (simp add: u_def t_def)
qed

lemma asciiTrimSpace_idem: "asciiTrimSpace (asciiTrimSpace s) = asciiTrimSpace s"
  by (simp add: asciiTrimSpace_def dropWhile_rev_dropWhile)

lemma canonical_idem:
  "asciiToLower (asciiTrimSpace (asciiToLower (asciiTrimSpace r))) = asciiToLower (asciiTrimSpace r)"
  by (simp add: asciiTrimSpace_ToLower asciiToLower_idem asciiTrimSpace_idem)

lemma asciiLib_exact: "asciiExact asciiLib"
  by (simp add: asciiExact_def asciiLib_def)

lemma asciiLib_fixed: "canonicalFixed asciiLib"
  by (simp add: canonicalFixed_def asciiLib_def canonical_idem)

lemma isASCII_asciiTrimSpace: "isASCII s \<Longrightarrow> isASCII (asciiTrimSpace s)"
proof -
  assume "isASCII s"
  moreover have "set (asciiTrimSpace s) \<subseteq> set s"
  proof
    fix c
    assume "c \<in> set (asciiTrimSpace s)"
    then have "c \<in> set (dropWhile asciiSpace (rev (dropWhile asciiSpace s)))"
      by (simp add: asciiTrimSpace_def)
    then have "c \<in> set (rev (dropWhile asciiSpace s))"
      by (rule set_dropWhileD)
    then have "c \<in> set (dropWhile asciiSpace s)"
      by simp
    then show "c \<in> set s"
      by (rule set_dropWhileD)
  qed
  ultimately show ?thesis
    by (auto simp: isASCII_def list_all_iff)
qed

lemma canonical_ascii:
  assumes "asciiExact L" and "isASCII s"
  shows "ToLower L (TrimSpace L s) = asciiToLower (asciiTrimSpace s)"
proof -
  from assms have "TrimSpace L s = asciiTrimSpace s"
    by (simp add: asciiExact_def)
  moreover from assms have "ToLower L (asciiTrimSpace s) = asciiToLower (asciiTrimSpace s)"
    by (simp add: asciiExact_def isASCII_asciiTrimSpace)
  ultimately show ?thesis by simp
qed

lemma serviceNames_AllServices:
  "serviceNames AllServices ''|'' =
     ''gmail|calendar|drive|docs|contacts|tasks|sheets|people|groups|keep''"
  by code_simp

lemma ParseService_registered:
  "serviceInfoByService (ToLower L (TrimSpace L r)) = Some info \<Longrightarrow>
   ParseService L r = Inr (ToLower L (TrimSpace L r))"
  by (simp add: ParseService_def)

lemma ParseService_unregistered:
  "serviceInfoByService (ToLower L (TrimSpace L r)) = None \<Longrightarrow>
   ParseService L r =
     Inl (WrapError
            (''unknown service '' @ Quote L r
               @ '' (expected gmail|calendar|drive|docs|contacts|tasks|sheets|people|groups|keep)'')
            errUnknownService)"
  by (simp add: ParseService_def serviceNames_AllServices) (simp add: errUnknownService_def)

lemma AllServices_canonical:
  "list_all (\<lambda>s. isASCII s \<and> asciiToLower (asciiTrimSpace s) = s
                 \<and> (case serviceInfoByService s of None \<Rightarrow> False | Some info \<Rightarrow> True))
     AllServices"
  by code_simp

lemma foldl_filterStep:
  "foldl (filterStep incl) out svcs =
     out @ filter (\<lambda>svc. case serviceInfoByService svc of
                            None \<Rightarrow> False
                          | Some info \<Rightarrow> (case incl of None \<Rightarrow> True | Some f \<Rightarrow> f info)) svcs"
  by (induction svcs arbitrary: out) (auto split: option.splits)

lemma UserServices_eq_filter:
  "UserServices =
     filter (\<lambda>svc. \<exists>info. serviceInfoByService svc = Some info \<and> user info) AllServices"
proof -
  have "(case serviceInfoByService svc of None \<Rightarrow> False
          | Some info \<Rightarrow> (case Some user of None \<Rightarrow> True | Some f \<Rightarrow> f info))
        = (\<exists>info. serviceInfoByService svc = Some info \<and> user info)" for svc
    by (simp split: option.splits)
  then show ?thesis
    by (simp add: UserServices_def filteredServices_def foldl_filterStep AllServices_def)
qed

lemma keep_record:
  "serviceInfoByService ''keep'' =
     Some \<lparr>scopes = [''https://www.googleapis.com/auth/keep''], user = False,
           apis = [''Keep API''], note' = ''Workspace only; service account''\<rparr>"
  by (simp add: serviceInfoByService_def serviceEntries_def service_defs)

lemma foldl_append_concat:
  assumes "\<And>b v. g b v = b @ f v"
  shows "foldl g b xs = b @ concat (map f xs)"
  by (induction xs arbitrary: b) (simp_all add: assms)

lemma writeRow_eq:
  "writeRow b v =
     b @ (''| '' @ Service v @ '' | '' @ (if User v then ''yes'' else ''no'')
          @ '' | '' @ Join (APIs v) '', '' @ '' | ''
          @ Join (map (\<lambda>s. [CHR 0x60] @ s @ [CHR 0x60]) (Scopes' v)) ''<br>''
          @ '' | '' @ Note v @ '' |'' @ [CHR 0x0A])"
  by (simp add: writeRow_def markdownScopes_def)

lemma foldl_writeRow:
  "foldl writeRow b infos =
     b @ concat (map (\<lambda>v. ''| '' @ Service v @ '' | '' @ (if User v then ''yes'' else ''no'')
                        @ '' | '' @ Join (APIs v) '', '' @ '' | ''
                        @ Join (map (\<lambda>s. [CHR 0x60] @ s @ [CHR 0x60]) (Scopes' v)) ''<br>''
                        @ '' | '' @ Note v @ '' |'' @ [CHR 0x0A]) infos)"
  by (rule foldl_append_concat) (rule writeRow_eq)

lemma concat_quoteByte_plain:
  assumes "list_all (\<lambda>c. c \<noteq> CHR 0x22 \<and> c \<noteq> CHR 0x5C
                          \<and> 32 \<le> (of_char c :: nat) \<and> (of_char c :: nat) < 127) r"
  shows "concat (map quoteByte r) = r"
  using assms by (induction r) (simp_all add: quoteByte_def)

lemma ParseService_key:
  assumes "asciiExact L" and "isASCII s" and "asciiToLower (asciiTrimSpace s) = s"
    and "serviceInfoByService s = Some info"
  shows "ParseService L s = Inr s"
proof -
  from assms(1,2,3) have "ToLower L (TrimSpace L s) = s"
    by (simp add: canonical_ascii)
  with assms(4) show ?thesis
    by (simp add: ParseService_def)
qed

lemma unknown_message_parts:
  "sublist q
     (''unknown service '' @ q
        @ '' (expected gmail|calendar|drive|docs|contacts|tasks|sheets|people|groups|keep)'')
   \<and> sublist (Join AllServices ''|'')
     (''unknown service '' @ q
        @ '' (expected gmail|calendar|drive|docs|contacts|tasks|sheets|people|groups|keep)'')"
proof
  show "sublist q
     (''unknown service '' @ q
        @ '' (expected gmail|calendar|drive|docs|contacts|tasks|sheets|people|groups|keep)'')"
    by (rule sublist_appendI)
  have "''unknown service '' @ q
        @ '' (expected gmail|calendar|drive|docs|contacts|tasks|sheets|people|groups|keep)''
      = (''unknown service '' @ q @ '' (expected '') @ Join AllServices ''|'' @ '')''"
    using serviceNames_AllServices by (simp add: serviceNames_def)
  then show "sublist (Join AllServices ''|'')
     (''unknown service '' @ q
        @ '' (expected gmail|calendar|drive|docs|contacts|tasks|sheets|people|groups|keep)'')"
    by (metis sublist_appendI)
qed

lemma unregistered_list_error:
  assumes "\<not> set services \<subseteq> dom serviceInfoByService"
  shows "ScopesForServices services = Inl errUnknownService
         \<and> ScopesForManage services = Inl errUnknownService"
proof -
  from first_unregistered [OF assms] obtain pre bad post where
    split: "services = pre @ bad # post" "set pre \<subseteq> dom serviceInfoByService"
      "bad \<notin> dom serviceInfoByService"
    by blast
  have "collectScopes [] services = Inl errUnknownService"
    unfolding split(1) using split(2,3) by (rule collectScopes_first_unknown)
  then have s: "ScopesForServices services = Inl errUnknownService"
    by (simp add: ScopesForServices_def)
  then have "ScopesForManage services = Inl errUnknownService"
    by (simp add: ScopesForManage_def)
  with s show ?thesis by (rule conjI)
qed

section \<open>The registry invariant\<close>

text \<open>
  Claim C9.  In the registry as the source builds it, the presentation order
  \<open>serviceOrder\<close> has no repeated identifier, and the identifiers it lists are exactly
  the keys of \<open>serviceInfoByService\<close>: every identifier of the order has a record,
  every key is in the order, and the order holds each key once and nothing else.
\<close>

theorem registry_invariant:
  "distinct serviceOrder \<and> set serviceOrder = dom serviceInfoByService
   \<and> (\<forall>svc. count_list serviceOrder svc = (if svc \<in> dom serviceInfoByService then 1 else 0))"
  unfolding serviceInfoByService_def dom_map_of_conv_image_fst serviceEntries_def
    serviceOrder_def service_defs
  by auto

section \<open>Union of scopes\<close>

text \<open>
  Claim C10.  On the empty list \<open>ScopesForServices\<close> succeeds with the empty list, and
  \<open>ScopesForManage\<close> succeeds with the three identity scopes in ascending order.
\<close>

theorem empty_input_scopes:
  "ScopesForServices [] = Inr []
   \<and> ScopesForManage [] =
       Inr [''email'', ''https://www.googleapis.com/auth/userinfo.email'', ''openid'']"
  by code_simp

text \<open>
  Claim C1.  For a list of registered identifiers \<open>ScopesForServices\<close> succeeds; its
  result holds exactly the scopes that \<open>Scopes\<close> gives for some identifier of the
  list, each once, in strictly ascending order of the byte-wise comparison of strings;
  and any list with the same identifiers, in whatever order and however often repeated,
  gives the same result.
\<close>

theorem ScopesForServices_union_sorted:
  assumes "set services \<subseteq> dom serviceInfoByService"
  shows "\<exists>out. ScopesForServices services = Inr out
           \<and> set out = {s. \<exists>svc\<in>set services. \<exists>scs. Scopes svc = Inr scs \<and> s \<in> set scs}
           \<and> distinct out
           \<and> sorted_wrt (<) out
           \<and> (\<forall>others. set others = set services \<longrightarrow> ScopesForServices others = Inr out)"
proof -
  from collectScopes_registered [OF assms, of "[]"] obtain keys where
    keys: "collectScopes [] services = Inr keys"
      "set keys = {s. \<exists>svc\<in>set services. \<exists>scs. Scopes svc = Inr scs \<and> s \<in> set scs}"
      "distinct keys"
    by auto
  have res: "ScopesForServices services = Inr (sort keys)"
    using keys(1) by (simp add: ScopesForServices_def)
  have "ScopesForServices others = Inr (sort keys)" if eq: "set others = set services" for others
  proof -
    from assms eq have "set others \<subseteq> dom serviceInfoByService" by simp
    from collectScopes_registered [OF this, of "[]"] obtain keys' where
      keys': "collectScopes [] others = Inr keys'"
        "set keys' = {s. \<exists>svc\<in>set others. \<exists>scs. Scopes svc = Inr scs \<and> s \<in> set scs}"
        "distinct keys'"
      by auto
    have "set keys' = set keys"
      using keys(2) keys'(2) eq by simp
    then have "sort keys' = sort keys"
      using sort_keys_any_order keys(3) keys'(3) by blast
    then show ?thesis
      using keys'(1) by (simp add: ScopesForServices_def)
  qed
  moreover have "set (sort keys) = {s. \<exists>svc\<in>set services. \<exists>scs. Scopes svc = Inr scs \<and> s \<in> set scs}"
    using keys(2) by simp
  moreover have "distinct (sort keys)" "sorted_wrt (<) (sort keys)"
    using keys(3) by (simp_all add: strict_sorted_iff)
  ultimately show ?thesis
    using res by blast
qed

text \<open>The theorem at the list gmail, calendar, gmail, and at its two reorderings
  without the repetition.\<close>

theorem ScopesForServices_union_sorted_witness:
  "set [''gmail'', ''calendar'', ''gmail''] \<subseteq> dom serviceInfoByService
   \<and> ScopesForServices [''gmail'', ''calendar'', ''gmail''] =
       Inr [''https://mail.google.com/'', ''https://www.googleapis.com/auth/calendar'',
            ''https://www.googleapis.com/auth/gmail.settings.basic'']
   \<and> ScopesForServices [''calendar'', ''gmail''] = ScopesForServices [''gmail'', ''calendar'', ''gmail'']
   \<and> ScopesForServices [''gmail'', ''calendar''] = ScopesForServices [''gmail'', ''calendar'', ''gmail'']"
proof -
  have reg: "set [''gmail'', ''calendar'', ''gmail''] \<subseteq> dom serviceInfoByService"
    by (simp add: dom_serviceInfoByService)
  have val: "ScopesForServices [''gmail'', ''calendar'', ''gmail''] =
       Inr [''https://mail.google.com/'', ''https://www.googleapis.com/auth/calendar'',
            ''https://www.googleapis.com/auth/gmail.settings.basic'']"
    by code_simp
  from ScopesForServices_union_sorted [OF reg] obtain out where
    out: "ScopesForServices [''gmail'', ''calendar'', ''gmail''] = Inr out"
      "\<forall>others. set others = set [''gmail'', ''calendar'', ''gmail''] \<longrightarrow> ScopesForServices others = Inr out"
    by blast
  have "ScopesForServices [''calendar'', ''gmail''] = Inr out"
    using out(2) by (rule allE [of _ "[''calendar'', ''gmail'']"]) auto
  moreover have "ScopesForServices [''gmail'', ''calendar''] = Inr out"
    using out(2) by (rule allE [of _ "[''gmail'', ''calendar'']"]) auto
  ultimately show ?thesis
    using reg val out(1) by simp
qed

text \<open>
  Claim C3.  For a list of registered identifiers \<open>ScopesForManage\<close> succeeds.  Its
  result holds every scope of \<open>ScopesForServices\<close> on the same list, and what it
  holds beyond them is exactly the three identity scopes \<open>openid\<close>, \<open>email\<close> and
  the userinfo-email URL.  The result has no repeated entry, is strictly ascending and
  holds no empty string; \<open>mergeScopes\<close> leaves the empty string out whatever its two
  arguments are.
\<close>

theorem ScopesForManage_superset:
  assumes "set services \<subseteq> dom serviceInfoByService"
  shows "\<exists>scs out. ScopesForServices services = Inr scs \<and> ScopesForManage services = Inr out
           \<and> set scs \<subseteq> set out
           \<and> set out - set scs =
               {''openid'', ''email'', ''https://www.googleapis.com/auth/userinfo.email''}
           \<and> distinct out
           \<and> sorted_wrt (<) out
           \<and> [] \<notin> set out
           \<and> (\<forall>xs extras. set (mergeScopes xs extras) = (set xs \<union> set extras) - {[]})"
proof -
  from collectScopes_registered [OF assms, of "[]"] obtain keys where
    keys: "collectScopes [] services = Inr keys"
    by auto
  define scs where "scs = sort keys"
  define ids where "ids = {''openid'', ''email'', ''https://www.googleapis.com/auth/userinfo.email''}"
  define out where "out = mergeScopes scs [scopeOpenID, scopeEmail, scopeUserinfoEmail]"
  have res: "ScopesForServices services = Inr scs"
    using keys by (simp add: ScopesForServices_def scs_def)
  have man: "ScopesForManage services = Inr out"
    using res by (simp add: ScopesForManage_def out_def)
  note reg = identity_not_registry [OF ScopesForServices_registered_scopes [OF res]]
  have disj: "ids \<inter> set scs = {}"
    using reg(2,3,4) by (simp add: ids_def)
  have "[] \<notin> ids"
    by (simp add: ids_def)
  with reg(1) have "[] \<notin> set scs \<union> ids"
    by simp
  then have "(set scs \<union> ids) - {[]} = set scs \<union> ids"
    by simp
  moreover have "set out = (set scs \<union> ids) - {[]}"
    by (simp add: out_def set_mergeScopes scopeOpenID_def scopeEmail_def scopeUserinfoEmail_def
        ids_def)
  ultimately have set_out: "set out = set scs \<union> ids"
    by simp
  have sub: "set scs \<subseteq> set out"
    using set_out by blast
  have new: "set out - set scs = ids"
    using set_out disj by blast
  have srt: "sorted_wrt (<) out"
    by (simp add: out_def strict_sorted_mergeScopes)
  then have dis: "distinct out"
    by (simp add: strict_sorted_iff)
  have ne: "[] \<notin> set out"
    by (simp add: out_def set_mergeScopes)
  have gen: "\<forall>xs extras. set (mergeScopes xs extras) = (set xs \<union> set extras) - {[]}"
    by (simp add: set_mergeScopes)
  show ?thesis
    apply (rule exI [of _ scs])
    apply (rule exI [of _ out])
    using res man sub new [unfolded ids_def] srt dis ne gen
    apply (intro conjI)
           apply assumption+
    done
qed

text \<open>The theorem at the list docs, drive, with both results written out.\<close>

theorem ScopesForManage_superset_witness:
  "set [''docs'', ''drive''] \<subseteq> dom serviceInfoByService
   \<and> ScopesForServices [''docs'', ''drive''] =
        Inr [''https://www.googleapis.com/auth/documents'',
             ''https://www.googleapis.com/auth/drive'']
   \<and> ScopesForManage [''docs'', ''drive''] =
        Inr [''email'',
             ''https://www.googleapis.com/auth/documents'',
             ''https://www.googleapis.com/auth/drive'',
             ''https://www.googleapis.com/auth/userinfo.email'',
             ''openid'']
   \<and> (\<exists>scs out. ScopesForServices [''docs'', ''drive''] = Inr scs
          \<and> ScopesForManage [''docs'', ''drive''] = Inr out
          \<and> set scs \<subseteq> set out
          \<and> set out - set scs =
               {''openid'', ''email'', ''https://www.googleapis.com/auth/userinfo.email''}
          \<and> distinct out
          \<and> sorted_wrt (<) out
          \<and> [] \<notin> set out
          \<and> (\<forall>xs extras. set (mergeScopes xs extras) = (set xs \<union> set extras) - {[]}))"
proof (intro conjI)
  show reg: "set [''docs'', ''drive''] \<subseteq> dom serviceInfoByService"
    by (simp add: dom_serviceInfoByService)
  show "ScopesForServices [''docs'', ''drive''] =
        Inr [''https://www.googleapis.com/auth/documents'',
             ''https://www.googleapis.com/auth/drive'']"
    by code_simp
  show "ScopesForManage [''docs'', ''drive''] =
        Inr [''email'',
             ''https://www.googleapis.com/auth/documents'',
             ''https://www.googleapis.com/auth/drive'',
             ''https://www.googleapis.com/auth/userinfo.email'',
             ''openid'']"
    by code_simp
  show "\<exists>scs out. ScopesForServices [''docs'', ''drive''] = Inr scs
          \<and> ScopesForManage [''docs'', ''drive''] = Inr out
          \<and> set scs \<subseteq> set out
          \<and> set out - set scs =
               {''openid'', ''email'', ''https://www.googleapis.com/auth/userinfo.email''}
          \<and> distinct out
          \<and> sorted_wrt (<) out
          \<and> [] \<notin> set out
          \<and> (\<forall>xs extras. set (mergeScopes xs extras) = (set xs \<union> set extras) - {[]})"
    by (rule ScopesForManage_superset [OF reg])
qed

section \<open>Unregistered identifiers\<close>

text \<open>
  Claim C4.  A list with an unregistered identifier splits at the first such identifier
  \<open>bad\<close>, everything before it being registered.  \<open>ScopesForServices\<close> and
  \<open>ScopesForManage\<close> then return what \<open>Scopes bad\<close> returns, the error
  \<open>errUnknownService\<close>, and no list: the result \<open>Inl err\<close> stands for the pair
  \<^verbatim>\<open>nil, err\<close> of the source, so the scopes collected before \<open>bad\<close> are dropped.
\<close>

theorem ScopesForServices_first_unknown:
  assumes "\<not> set services \<subseteq> dom serviceInfoByService"
  shows "\<exists>pre bad post. services = pre @ bad # post
           \<and> set pre \<subseteq> dom serviceInfoByService
           \<and> bad \<notin> dom serviceInfoByService
           \<and> Scopes bad = Inl errUnknownService
           \<and> ScopesForServices services = Scopes bad
           \<and> ScopesForManage services = Scopes bad"
proof -
  from first_unregistered [OF assms] obtain pre bad post where
    split: "services = pre @ bad # post" "set pre \<subseteq> dom serviceInfoByService"
      "bad \<notin> dom serviceInfoByService"
    by blast
  have bad: "Scopes bad = Inl errUnknownService"
    using split(3) by (rule Scopes_unregistered)
  have "collectScopes [] services = Inl errUnknownService"
    unfolding split(1) using split(2,3) by (rule collectScopes_first_unknown)
  then have s: "ScopesForServices services = Inl errUnknownService"
    by (simp add: ScopesForServices_def)
  then have "ScopesForManage services = Inl errUnknownService"
    by (simp add: ScopesForManage_def)
  with s bad split show ?thesis by metis
qed

text \<open>The theorem at contacts, nope, tasks, zzz: the first unregistered identifier
  is \<open>nope\<close>, after one registered identifier.\<close>

theorem ScopesForServices_first_unknown_witness:
  "\<not> set [''contacts'', ''nope'', ''tasks'', ''zzz''] \<subseteq> dom serviceInfoByService
   \<and> ScopesForServices [''contacts'', ''nope'', ''tasks'', ''zzz''] =
        Inl (ErrorString ''unknown service'')
   \<and> ScopesForManage [''contacts'', ''nope'', ''tasks'', ''zzz''] =
        Inl (ErrorString ''unknown service'')"
proof -
  have bad: "\<not> set [''contacts'', ''nope'', ''tasks'', ''zzz''] \<subseteq> dom serviceInfoByService"
    by (simp add: dom_serviceInfoByService)
  from ScopesForServices_first_unknown [OF bad] show ?thesis
    using bad by (auto simp: errUnknownService_def)
qed

section \<open>Enumeration for individual accounts\<close>

text \<open>
  Claim C7.  \<open>UserServices\<close> is a proper subsequence of \<open>AllServices\<close>: its
  elements are elements of \<open>AllServices\<close> in the same relative order, and it is not
  the whole list.  It is \<open>AllServices\<close> filtered by the flag \<open>user\<close> of the record,
  so it holds exactly the identifiers whose record has \<open>user\<close> true; an identifier
  whose record has \<open>user\<close> false, such as \<open>keep\<close>, is not in it.
\<close>

theorem UserServices_filter:
  "subseq UserServices AllServices
   \<and> UserServices \<noteq> AllServices
   \<and> UserServices =
       filter (\<lambda>svc. \<exists>info. serviceInfoByService svc = Some info \<and> user info) AllServices
   \<and> set UserServices = {svc. \<exists>info. serviceInfoByService svc = Some info \<and> user info}
   \<and> (\<forall>svc info. serviceInfoByService svc = Some info \<and> \<not> user info
         \<longrightarrow> svc \<notin> set UserServices)
   \<and> ''keep'' \<notin> set UserServices"
proof (intro conjI)
  show flt: "UserServices =
       filter (\<lambda>svc. \<exists>info. serviceInfoByService svc = Some info \<and> user info) AllServices"
    by (rule UserServices_eq_filter)
  show "subseq UserServices AllServices"
    by (subst flt) (rule subseq_filter_left)
  have all: "set AllServices = dom serviceInfoByService"
    unfolding AllServices_def serviceInfoByService_def dom_map_of_conv_image_fst
      serviceEntries_def serviceOrder_def service_defs
    by auto
  show set_eq: "set UserServices = {svc. \<exists>info. serviceInfoByService svc = Some info \<and> user info}"
    by (subst flt) (auto simp: all)
  show "\<forall>svc info. serviceInfoByService svc = Some info \<and> \<not> user info
         \<longrightarrow> svc \<notin> set UserServices"
    unfolding set_eq by auto
  show keep: "''keep'' \<notin> set UserServices"
    unfolding set_eq by (simp add: keep_record)
  have "''keep'' \<in> set AllServices"
    by (simp add: AllServices_def serviceOrder_def service_defs)
  with keep show "UserServices \<noteq> AllServices"
    by metis
qed

text \<open>Both lists written out, and the theorem at \<open>keep\<close>, whose record has
  \<open>user\<close> false.\<close>

theorem UserServices_filter_witness:
  "UserServices = [''gmail'', ''calendar'', ''drive'', ''docs'', ''contacts'', ''tasks'',
                   ''sheets'', ''people'']
   \<and> AllServices = [''gmail'', ''calendar'', ''drive'', ''docs'', ''contacts'', ''tasks'',
                   ''sheets'', ''people'', ''groups'', ''keep'']
   \<and> serviceInfoByService ''keep'' =
       Some \<lparr>scopes = [''https://www.googleapis.com/auth/keep''], user = False,
             apis = [''Keep API''], note' = ''Workspace only; service account''\<rparr>
   \<and> ''keep'' \<notin> set UserServices"
proof (intro conjI)
  show "UserServices = [''gmail'', ''calendar'', ''drive'', ''docs'', ''contacts'', ''tasks'',
                   ''sheets'', ''people'']"
    by code_simp
  show "AllServices = [''gmail'', ''calendar'', ''drive'', ''docs'', ''contacts'', ''tasks'',
                   ''sheets'', ''people'', ''groups'', ''keep'']"
    by code_simp
  show rec: "serviceInfoByService ''keep'' =
       Some \<lparr>scopes = [''https://www.googleapis.com/auth/keep''], user = False,
             apis = [''Keep API''], note' = ''Workspace only; service account''\<rparr>"
    by (rule keep_record)
  from UserServices_filter have
    "\<forall>svc info. serviceInfoByService svc = Some info \<and> \<not> user info
       \<longrightarrow> svc \<notin> set UserServices"
    by (elim conjE)
  from this [rule_format, OF conjI, OF rec] show "''keep'' \<notin> set UserServices"
    by simp
qed

section \<open>The markdown table\<close>

text \<open>
  Claim C8.  \<open>ServicesMarkdown\<close> of the empty list is the empty string.  Of a list
  that is not empty it is the header line
  \<^verbatim>\<open>| Service | User | APIs | Scopes | Notes |\<close>, the separator line, and then one
  line per view, in the order of the list: the identifier, \<open>yes\<close> or \<open>no\<close> for the
  flag \<open>User\<close>, the APIs joined by a comma and a space, the scopes each between
  back-ticks (the byte 0x60) and joined by \<^verbatim>\<open><br>\<close>, and the note.  The second
  column, the availability to individual accounts, has the header \<open>User\<close>.
\<close>

theorem ServicesMarkdown_table:
  "ServicesMarkdown [] = []
   \<and> (infos \<noteq> [] \<longrightarrow>
        ServicesMarkdown infos =
          ''| Service | User | APIs | Scopes | Notes |'' @ [CHR 0x0A]
          @ ''| --- | --- | --- | --- | --- |'' @ [CHR 0x0A]
          @ concat (map (\<lambda>v. ''| '' @ Service v @ '' | '' @ (if User v then ''yes'' else ''no'')
                        @ '' | '' @ Join (APIs v) '', '' @ '' | ''
                        @ Join (map (\<lambda>s. [CHR 0x60] @ s @ [CHR 0x60]) (Scopes' v)) ''<br>''
                        @ '' | '' @ Note v @ '' |'' @ [CHR 0x0A]) infos))"
  by (simp add: ServicesMarkdown_def foldl_writeRow del: map_eq_conv)

text \<open>The theorem at two views: docs with two APIs and two scopes, keep with one of
  each.\<close>

theorem ServicesMarkdown_table_witness:
  "[\<lparr>Service = ''docs'', User = True,
      Scopes' = [''https://www.googleapis.com/auth/drive'',
                 ''https://www.googleapis.com/auth/documents''],
      APIs = [''Docs API'', ''Drive API''], Note = ''Export/copy/create via Drive''\<rparr>,
     \<lparr>Service = ''keep'', User = False,
      Scopes' = [''https://www.googleapis.com/auth/keep''],
      APIs = [''Keep API''], Note = ''Workspace only; service account''\<rparr>] \<noteq> []
   \<and> ServicesMarkdown
        [\<lparr>Service = ''docs'', User = True,
           Scopes' = [''https://www.googleapis.com/auth/drive'',
                      ''https://www.googleapis.com/auth/documents''],
           APIs = [''Docs API'', ''Drive API''], Note = ''Export/copy/create via Drive''\<rparr>,
         \<lparr>Service = ''keep'', User = False,
           Scopes' = [''https://www.googleapis.com/auth/keep''],
           APIs = [''Keep API''], Note = ''Workspace only; service account''\<rparr>]
       = ''| Service | User | APIs | Scopes | Notes |'' @ [CHR 0x0A]
         @ ''| --- | --- | --- | --- | --- |'' @ [CHR 0x0A]
         @ ''| docs | yes | Docs API, Drive API | '' @ [CHR 0x60]
         @ ''https://www.googleapis.com/auth/drive'' @ [CHR 0x60] @ ''<br>'' @ [CHR 0x60]
         @ ''https://www.googleapis.com/auth/documents'' @ [CHR 0x60]
         @ '' | Export/copy/create via Drive |'' @ [CHR 0x0A]
         @ ''| keep | no | Keep API | '' @ [CHR 0x60]
         @ ''https://www.googleapis.com/auth/keep'' @ [CHR 0x60]
         @ '' | Workspace only; service account |'' @ [CHR 0x0A]"
  using ServicesMarkdown_table
    [of "[\<lparr>Service = ''docs'', User = True,
           Scopes' = [''https://www.googleapis.com/auth/drive'',
                      ''https://www.googleapis.com/auth/documents''],
           APIs = [''Docs API'', ''Drive API''], Note = ''Export/copy/create via Drive''\<rparr>,
         \<lparr>Service = ''keep'', User = False,
           Scopes' = [''https://www.googleapis.com/auth/keep''],
           APIs = [''Keep API''], Note = ''Workspace only; service account''\<rparr>]"]
  by simp

section \<open>Parsing an identifier\<close>

text \<open>
  Claim C2.  \<open>ParseService\<close> succeeds on every identifier of \<open>AllServices\<close> and
  returns it.  For every string \<open>r\<close>, parsing \<open>r\<close> and parsing its trimmed,
  lower-cased form give the same result: when one succeeds so does the other, and both
  return that form as the identifier; when one fails so does the other, and both errors
  wrap \<open>errUnknownService\<close>.  The two results are equal once the message of a wrapping
  error is set aside, which is what \<open>map_sum Unwrap id\<close> does; the message quotes the
  string the call was given.  The library \<open>L\<close> is any with the two facts
  \<open>asciiExact\<close> and \<open>canonicalFixed\<close>; nothing is assumed of \<open>r\<close>.
\<close>

theorem ParseService_roundtrip_canonical:
  assumes "asciiExact L" and "canonicalFixed L"
  shows "(\<forall>s\<in>set AllServices. ParseService L s = Inr s)
   \<and> map_sum Unwrap id (ParseService L r)
       = map_sum Unwrap id (ParseService L (ToLower L (TrimSpace L r)))
   \<and> (case ParseService L r of
         Inr svc \<Rightarrow>
           svc = ToLower L (TrimSpace L r) \<and> ParseService L (ToLower L (TrimSpace L r)) = Inr svc
       | Inl err \<Rightarrow>
           (\<exists>msg msg'. err = WrapError msg errUnknownService
              \<and> ParseService L (ToLower L (TrimSpace L r)) = Inl (WrapError msg' errUnknownService)))"
proof -
  have keys: "\<forall>s\<in>set AllServices. ParseService L s = Inr s"
  proof
    fix s
    assume "s \<in> set AllServices"
    with AllServices_canonical have
      "isASCII s \<and> asciiToLower (asciiTrimSpace s) = s
       \<and> (case serviceInfoByService s of None \<Rightarrow> False | Some info \<Rightarrow> True)"
      by (simp add: list_all_iff)
    then obtain info where "isASCII s" "asciiToLower (asciiTrimSpace s) = s"
      "serviceInfoByService s = Some info"
      by (auto split: option.splits)
    with assms(1) show "ParseService L s = Inr s"
      by (simp add: ParseService_key)
  qed
  have again: "ToLower L (TrimSpace L (ToLower L (TrimSpace L r))) = ToLower L (TrimSpace L r)"
    using assms(2) by (simp add: canonicalFixed_def)
  have both: "map_sum Unwrap id (ParseService L r)
       = map_sum Unwrap id (ParseService L (ToLower L (TrimSpace L r)))
   \<and> (case ParseService L r of
         Inr svc \<Rightarrow>
           svc = ToLower L (TrimSpace L r) \<and> ParseService L (ToLower L (TrimSpace L r)) = Inr svc
       | Inl err \<Rightarrow>
           (\<exists>msg msg'. err = WrapError msg errUnknownService
              \<and> ParseService L (ToLower L (TrimSpace L r)) = Inl (WrapError msg' errUnknownService)))"
  proof (cases "serviceInfoByService (ToLower L (TrimSpace L r))")
    case None
    then have "serviceInfoByService (ToLower L (TrimSpace L (ToLower L (TrimSpace L r)))) = None"
      by (simp add: again)
    from ParseService_unregistered [OF None] ParseService_unregistered [OF this]
    show ?thesis by simp
  next
    case (Some info)
    then have "serviceInfoByService (ToLower L (TrimSpace L (ToLower L (TrimSpace L r)))) = Some info"
      by (simp add: again)
    from ParseService_registered [OF Some] ParseService_registered [OF this]
    show ?thesis by (simp add: again)
  qed
  from keys both show ?thesis by (rule conjI)
qed

text \<open>The theorem with the ASCII library: at the identifier sheets, at the string
  GMAIL in capitals with a space on each side, which parses to gmail, and at the string
  Nope with a space on each side, which fails as nope does.\<close>

theorem ParseService_roundtrip_canonical_witness:
  "asciiExact asciiLib
   \<and> canonicalFixed asciiLib
   \<and> ParseService asciiLib ''sheets'' = Inr ''sheets''
   \<and> ToLower asciiLib (TrimSpace asciiLib '' GMAIL '') = ''gmail''
   \<and> ParseService asciiLib '' GMAIL '' = Inr ''gmail''
   \<and> ParseService asciiLib (ToLower asciiLib (TrimSpace asciiLib '' GMAIL '')) = Inr ''gmail''
   \<and> ToLower asciiLib (TrimSpace asciiLib '' Nope '') = ''nope''
   \<and> map_sum Unwrap id (ParseService asciiLib '' Nope '') = Inl (Some errUnknownService)
   \<and> map_sum Unwrap id (ParseService asciiLib ''nope'') = Inl (Some errUnknownService)"
proof -
  note inst = ParseService_roundtrip_canonical [OF asciiLib_exact asciiLib_fixed]
  have c: "ToLower asciiLib (TrimSpace asciiLib '' GMAIL '') = ''gmail''"
    by code_simp
  have p: "ParseService asciiLib '' GMAIL '' = Inr ''gmail''"
    by code_simp
  have n: "ToLower asciiLib (TrimSpace asciiLib '' Nope '') = ''nope''"
    by code_simp
  have u: "map_sum Unwrap id (ParseService asciiLib '' Nope '') = Inl (Some errUnknownService)"
    by code_simp
  have m: "''sheets'' \<in> set AllServices"
    by (simp add: AllServices_def serviceOrder_def service_defs)
  from inst have "\<forall>s\<in>set AllServices. ParseService asciiLib s = Inr s"
    by (rule conjunct1)
  with m have s: "ParseService asciiLib ''sheets'' = Inr ''sheets''"
    by (rule bspec [rotated])
  from inst [of "'' GMAIL ''"] have
    "case ParseService asciiLib '' GMAIL '' of
         Inr svc \<Rightarrow>
           svc = ToLower asciiLib (TrimSpace asciiLib '' GMAIL '')
           \<and> ParseService asciiLib (ToLower asciiLib (TrimSpace asciiLib '' GMAIL '')) = Inr svc
       | Inl err \<Rightarrow>
           (\<exists>msg msg'. err = WrapError msg errUnknownService
              \<and> ParseService asciiLib (ToLower asciiLib (TrimSpace asciiLib '' GMAIL ''))
                  = Inl (WrapError msg' errUnknownService))"
    by (rule conjunct2 [OF conjunct2])
  then have g: "ParseService asciiLib (ToLower asciiLib (TrimSpace asciiLib '' GMAIL '')) = Inr ''gmail''"
    by (simp add: p)
  from inst [of "'' Nope ''"] have
    "map_sum Unwrap id (ParseService asciiLib '' Nope '')
       = map_sum Unwrap id
           (ParseService asciiLib (ToLower asciiLib (TrimSpace asciiLib '' Nope '')))"
    by (rule conjunct1 [OF conjunct2])
  then have v: "map_sum Unwrap id (ParseService asciiLib ''nope'') = Inl (Some errUnknownService)"
    unfolding n u by (rule sym)
  from asciiLib_exact asciiLib_fixed s c p g n u v show ?thesis
    by (intro conjI)
qed

text \<open>
  Claim C5, as amended.  For every string \<open>r\<close> whose trimmed, lower-cased form is not
  a key of the registry, \<open>ParseService\<close> fails with an error that wraps
  \<open>errUnknownService\<close>.  Its message is \<^verbatim>\<open>unknown service\<close>, a space, \<open>r\<close> as the
  \<^verbatim>\<open>%q\<close> verb prints it (\<open>r\<close> as it was given, not its canonical form), and the ten
  identifiers in presentation order joined by \<^verbatim>\<open>|\<close>, after \<^verbatim>\<open>(expected\<close> and before a
  closing parenthesis; so the message holds the quoted input and the joined list.  This
  needs no fact of the library.  With \<open>asciiExact\<close>, an input made of printable ASCII
  characters other than the double quote and the backslash is quoted as itself between
  two double quotes, and then the input as given stands in the message.
\<close>

theorem ParseService_unknown_message:
  assumes "serviceInfoByService (ToLower L (TrimSpace L r)) = None"
  shows "\<exists>msg. ParseService L r = Inl (WrapError msg errUnknownService)
           \<and> msg = ''unknown service '' @ Quote L r
                @ '' (expected gmail|calendar|drive|docs|contacts|tasks|sheets|people|groups|keep)''
           \<and> sublist (Quote L r) msg
           \<and> sublist (Join AllServices ''|'') msg
           \<and> (asciiExact L
                \<and> list_all (\<lambda>c. c \<noteq> CHR 0x22 \<and> c \<noteq> CHR 0x5C
                                 \<and> 32 \<le> (of_char c :: nat) \<and> (of_char c :: nat) < 127) r
                \<longrightarrow> Quote L r = [CHR 0x22] @ r @ [CHR 0x22] \<and> sublist r msg)"
proof -
  define msg where "msg = ''unknown service '' @ Quote L r
      @ '' (expected gmail|calendar|drive|docs|contacts|tasks|sheets|people|groups|keep)''"
  have res: "ParseService L r = Inl (WrapError msg errUnknownService)"
    using assms unfolding msg_def by (rule ParseService_unregistered)
  have quoted: "sublist (Quote L r) msg"
    unfolding msg_def by (rule sublist_appendI)
  have "msg = (''unknown service '' @ Quote L r @ '' (expected '')
                @ Join AllServices ''|'' @ '')''"
    unfolding msg_def using serviceNames_AllServices by (simp add: serviceNames_def)
  then have names: "sublist (Join AllServices ''|'') msg"
    by (metis sublist_appendI)
  have plain: "Quote L r = [CHR 0x22] @ r @ [CHR 0x22] \<and> sublist r msg"
    if ex: "asciiExact L"
      and pl: "list_all (\<lambda>c. c \<noteq> CHR 0x22 \<and> c \<noteq> CHR 0x5C
                         \<and> 32 \<le> (of_char c :: nat) \<and> (of_char c :: nat) < 127) r"
  proof -
    have "of_char c < (128::nat)" if "c \<in> set r" for c
    proof -
      from pl that have "(of_char c :: nat) < 127"
        by (simp add: list_all_iff)
      then show ?thesis by simp
    qed
    then have "isASCII r"
      by (simp add: isASCII_def list_all_iff)
    with ex have "Quote L r = asciiQuote r"
      unfolding asciiExact_def by blast
    also from pl have "asciiQuote r = [CHR 0x22] @ r @ [CHR 0x22]"
      by (simp add: asciiQuote_def concat_quoteByte_plain)
    finally have q: "Quote L r = [CHR 0x22] @ r @ [CHR 0x22]" .
    then have "sublist r (Quote L r)"
      by (metis sublist_appendI)
    from this quoted have "sublist r msg"
      by (rule sublist_order.order_trans)
    with q show ?thesis by (rule conjI)
  qed
  have raw: "asciiExact L
                \<and> list_all (\<lambda>c. c \<noteq> CHR 0x22 \<and> c \<noteq> CHR 0x5C
                                 \<and> 32 \<le> (of_char c :: nat) \<and> (of_char c :: nat) < 127) r
                \<longrightarrow> Quote L r = [CHR 0x22] @ r @ [CHR 0x22] \<and> sublist r msg"
  proof
    assume "asciiExact L
                \<and> list_all (\<lambda>c. c \<noteq> CHR 0x22 \<and> c \<noteq> CHR 0x5C
                                 \<and> 32 \<le> (of_char c :: nat) \<and> (of_char c :: nat) < 127) r"
    then show "Quote L r = [CHR 0x22] @ r @ [CHR 0x22] \<and> sublist r msg"
      by (elim conjE) (rule plain)
  qed
  show ?thesis
    apply (rule exI [of _ msg])
    using res quoted names raw
    apply (intro conjI)
        apply (assumption | rule msg_def)+
    done
qed

text \<open>The theorem with the ASCII library at the string Nope with a space on each
  side, with the result written out.\<close>

theorem ParseService_unknown_message_witness:
  "serviceInfoByService (ToLower asciiLib (TrimSpace asciiLib '' Nope '')) = None
   \<and> ParseService asciiLib '' Nope '' =
       Inl (WrapError
              (''unknown service '' @ [CHR 0x22] @ '' Nope '' @ [CHR 0x22]
                 @ '' (expected gmail|calendar|drive|docs|contacts|tasks|sheets|people|groups|keep)'')
              (ErrorString ''unknown service''))
   \<and> (\<exists>msg. ParseService asciiLib '' Nope '' = Inl (WrapError msg errUnknownService)
           \<and> msg = ''unknown service '' @ Quote asciiLib '' Nope ''
                @ '' (expected gmail|calendar|drive|docs|contacts|tasks|sheets|people|groups|keep)''
           \<and> sublist (Quote asciiLib '' Nope '') msg
           \<and> sublist (Join AllServices ''|'') msg
           \<and> (asciiExact asciiLib
                \<and> list_all (\<lambda>c. c \<noteq> CHR 0x22 \<and> c \<noteq> CHR 0x5C
                                 \<and> 32 \<le> (of_char c :: nat) \<and> (of_char c :: nat) < 127)
                     '' Nope ''
                \<longrightarrow> Quote asciiLib '' Nope '' = [CHR 0x22] @ '' Nope '' @ [CHR 0x22]
                    \<and> sublist '' Nope '' msg))"
proof (intro conjI)
  have "ToLower asciiLib (TrimSpace asciiLib '' Nope '') = ''nope''"
    by code_simp
  then show b: "serviceInfoByService (ToLower asciiLib (TrimSpace asciiLib '' Nope '')) = None"
    by (simp add: serviceInfoByService_def serviceEntries_def service_defs)
  show "ParseService asciiLib '' Nope '' =
       Inl (WrapError
              (''unknown service '' @ [CHR 0x22] @ '' Nope '' @ [CHR 0x22]
                 @ '' (expected gmail|calendar|drive|docs|contacts|tasks|sheets|people|groups|keep)'')
              (ErrorString ''unknown service''))"
    by code_simp
  show "\<exists>msg. ParseService asciiLib '' Nope '' = Inl (WrapError msg errUnknownService)
           \<and> msg = ''unknown service '' @ Quote asciiLib '' Nope ''
                @ '' (expected gmail|calendar|drive|docs|contacts|tasks|sheets|people|groups|keep)''
           \<and> sublist (Quote asciiLib '' Nope '') msg
           \<and> sublist (Join AllServices ''|'') msg
           \<and> (asciiExact asciiLib
                \<and> list_all (\<lambda>c. c \<noteq> CHR 0x22 \<and> c \<noteq> CHR 0x5C
                                 \<and> 32 \<le> (of_char c :: nat) \<and> (of_char c :: nat) < 127)
                     '' Nope ''
                \<longrightarrow> Quote asciiLib '' Nope '' = [CHR 0x22] @ '' Nope '' @ [CHR 0x22]
                    \<and> sublist '' Nope '' msg)"
    by (rule ParseService_unknown_message [OF b])
qed

text \<open>
  Claim C5 as it was stated has the message hold the input string itself.  The input
  \<open>no"pe\<close> (five ASCII characters, the third a double quote) is not registered; the
  message holds it as \<^verbatim>\<open>"no\"pe"\<close>, with a backslash before the inner double quote, and
  the five characters of the input do not occur in the message as a run.
\<close>

theorem ParseService_raw_input_counterexample:
  "isASCII (''no'' @ [CHR 0x22] @ ''pe'')
   \<and> ParseService asciiLib (''no'' @ [CHR 0x22] @ ''pe'') =
       Inl (WrapError
              (''unknown service '' @ [CHR 0x22] @ ''no'' @ [CHR 0x5C, CHR 0x22] @ ''pe''
                 @ [CHR 0x22]
                 @ '' (expected gmail|calendar|drive|docs|contacts|tasks|sheets|people|groups|keep)'')
              (ErrorString ''unknown service''))
   \<and> \<not> sublist (''no'' @ [CHR 0x22] @ ''pe'')
         (''unknown service '' @ [CHR 0x22] @ ''no'' @ [CHR 0x5C, CHR 0x22] @ ''pe''
            @ [CHR 0x22]
            @ '' (expected gmail|calendar|drive|docs|contacts|tasks|sheets|people|groups|keep)'')"
  by code_simp

section \<open>What an unknown-service error carries\<close>

text \<open>
  Claim C6, as amended.  The error of \<open>ParseService\<close> carries the offending input:
  whatever the input and the library, its message holds the input as \<^verbatim>\<open>%q\<close> prints
  it, and the list of the valid identifiers.  The error of \<open>Scopes\<close> on an unregistered
  identifier is the value \<open>errUnknownService\<close> itself, whatever the identifier is;
  \<open>ScopesForServices\<close> and \<open>ScopesForManage\<close> return that same value for a list with
  an unregistered identifier; and its message is \<^verbatim>\<open>unknown service\<close> and nothing more.
\<close>

theorem unknown_service_error_context:
  "(serviceInfoByService (ToLower L (TrimSpace L r)) = None \<longrightarrow>
      (\<exists>msg. ParseService L r = Inl (WrapError msg errUnknownService)
         \<and> sublist (Quote L r) msg
         \<and> sublist (Join AllServices ''|'') msg))
   \<and> (serviceInfoByService svc = None \<longrightarrow> Scopes svc = Inl errUnknownService)
   \<and> (\<not> set services \<subseteq> dom serviceInfoByService \<longrightarrow>
        ScopesForServices services = Inl errUnknownService
        \<and> ScopesForManage services = Inl errUnknownService)
   \<and> Error errUnknownService = ''unknown service''"
proof (intro conjI impI)
  assume "serviceInfoByService (ToLower L (TrimSpace L r)) = None"
  then have "ParseService L r =
     Inl (WrapError
            (''unknown service '' @ Quote L r
               @ '' (expected gmail|calendar|drive|docs|contacts|tasks|sheets|people|groups|keep)'')
            errUnknownService)"
    by (rule ParseService_unregistered)
  with unknown_message_parts [of "Quote L r"]
  show "\<exists>msg. ParseService L r = Inl (WrapError msg errUnknownService)
         \<and> sublist (Quote L r) msg
         \<and> sublist (Join AllServices ''|'') msg"
    by (intro exI conjI) (assumption | erule conjunct1 | erule conjunct2)+
next
  assume "serviceInfoByService svc = None"
  then show "Scopes svc = Inl errUnknownService"
    by (simp add: Scopes_def)
next
  assume bad: "\<not> set services \<subseteq> dom serviceInfoByService"
  from unregistered_list_error [OF bad]
  show "ScopesForServices services = Inl errUnknownService"
    by (rule conjunct1)
  from unregistered_list_error [OF bad]
  show "ScopesForManage services = Inl errUnknownService"
    by (rule conjunct2)
next
  show "Error errUnknownService = ''unknown service''"
    by (simp add: errUnknownService_def)
qed

text \<open>The theorem at the string NOPE for \<open>ParseService\<close> with the ASCII library,
  at the identifier nope for \<open>Scopes\<close>, and at the list gmail, nope.\<close>

theorem unknown_service_error_context_witness:
  "serviceInfoByService (ToLower asciiLib (TrimSpace asciiLib ''NOPE'')) = None
   \<and> (\<exists>msg. ParseService asciiLib ''NOPE'' = Inl (WrapError msg errUnknownService)
         \<and> sublist (Quote asciiLib ''NOPE'') msg
         \<and> sublist (Join AllServices ''|'') msg)
   \<and> serviceInfoByService ''nope'' = None
   \<and> Scopes ''nope'' = Inl errUnknownService
   \<and> \<not> set [''gmail'', ''nope''] \<subseteq> dom serviceInfoByService
   \<and> ScopesForServices [''gmail'', ''nope''] = Inl errUnknownService
   \<and> ScopesForManage [''gmail'', ''nope''] = Inl errUnknownService"
proof -
  have "ToLower asciiLib (TrimSpace asciiLib ''NOPE'') = ''nope''"
    by code_simp
  moreover have n: "serviceInfoByService ''nope'' = None"
    by (simp add: serviceInfoByService_def serviceEntries_def service_defs)
  ultimately have b: "serviceInfoByService (ToLower asciiLib (TrimSpace asciiLib ''NOPE'')) = None"
    by simp
  have l: "\<not> set [''gmail'', ''nope''] \<subseteq> dom serviceInfoByService"
    by (simp add: dom_serviceInfoByService)
  note inst = unknown_service_error_context
    [of asciiLib "''NOPE''" "''nope''" "[''gmail'', ''nope'']"]
  have p: "\<exists>msg. ParseService asciiLib ''NOPE'' = Inl (WrapError msg errUnknownService)
         \<and> sublist (Quote asciiLib ''NOPE'') msg
         \<and> sublist (Join AllServices ''|'') msg"
    by (rule mp [OF conjunct1 [OF inst] b])
  have s: "Scopes ''nope'' = Inl errUnknownService"
    by (rule mp [OF conjunct1 [OF conjunct2 [OF inst]] n])
  have m: "ScopesForServices [''gmail'', ''nope''] = Inl errUnknownService
        \<and> ScopesForManage [''gmail'', ''nope''] = Inl errUnknownService"
    by (rule mp [OF conjunct1 [OF conjunct2 [OF conjunct2 [OF inst]]] l])
  from b p n s l conjunct1 [OF m] conjunct2 [OF m] show ?thesis
    by (intro conjI)
qed

text \<open>
  Claim C6 as it was stated has the error of \<open>Scopes\<close> carry the identifier that
  failed.  On \<open>nope\<close> the error is \<open>ErrorString\<close> of \<^verbatim>\<open>unknown service\<close>; \<open>nope\<close>
  does not occur in its message, and \<open>zzz\<close> gives the very same result.
\<close>

theorem Scopes_error_bare_counterexample:
  "Scopes ''nope'' = Inl (ErrorString ''unknown service'')
   \<and> Error (ErrorString ''unknown service'') = ''unknown service''
   \<and> \<not> sublist ''nope'' (Error (ErrorString ''unknown service''))
   \<and> Scopes ''zzz'' = Scopes ''nope''"
  by code_simp

end
